theory Spec2Isabelle
  imports Main "HOL-Library.Word"
begin

section \<open>Values\<close>

text \<open>
  The crawler of \<^verbatim>\<open>src/index.ts\<close>. A URL and every other JavaScript string is a
  \<open>string\<close>; a promise that rejects is \<open>Inl\<close> of what it rejects with, one that resolves
  is \<open>Inr\<close> of the value.
\<close>

type_synonym url = string

text \<open>
  What a promise rejects with, told apart the way p-retry tells it apart: \<open>Error\<close> is an
  \<^verbatim>\<open>Error\<close> that is neither a \<^verbatim>\<open>TypeError\<close> nor p-retry's \<^verbatim>\<open>AbortError\<close>, such as the
  \<^verbatim>\<open>new Error("No content found")\<close> of the source; \<open>NetworkError\<close> is a \<^verbatim>\<open>TypeError\<close> that
  is-network-error recognises as a failed fetch; \<open>TypeError\<close> is any other \<^verbatim>\<open>TypeError\<close>;
  \<open>AbortError\<close> is p-retry's \<^verbatim>\<open>AbortError\<close> with the error it wraps; \<open>NonError\<close> is a
  thrown value that is not an \<^verbatim>\<open>Error\<close>, with its string form.
\<close>

datatype js_error =
    Error (message: string)
  | TypeError (message: string)
  | NetworkError (message: string)
  | AbortError (originalError: js_error)
  | NonError (shown: string)

text \<open>
  The fields of the object \<^verbatim>\<open>Parser.parse\<close> resolves to that the source reads.
  \<open>None\<close> is \<^verbatim>\<open>null\<close> or \<^verbatim>\<open>undefined\<close>.
\<close>

record ParseResult =
  title :: "string option"
  content :: "string option"
  excerpt :: "string option"
  domain :: "string option"
  word_count :: "nat option"
  author :: "string option"
  date_published :: "string option"
  lead_image_url :: "string option"

text \<open>The object literal \<^verbatim>\<open>metadata\<close> (lines 100 to 111), field by field.\<close>

record Metadata =
  meta_title :: "string option"
  meta_excerpt :: "string option"
  meta_siteName :: "string option"
  meta_url :: url
  meta_wordCount :: "nat option"
  meta_length :: "nat option"
  meta_processedAt :: string
  meta_author :: "string option"
  meta_date_published :: "string option"
  meta_lead_image_url :: "string option"

section \<open>Filename Deriver\<close>

text \<open>
  \<^verbatim>\<open>crypto.createHash("md5").update(url).digest("hex")\<close>: the digest is the platform's,
  so \<open>md5\<close> is a parameter giving the digest's bytes; \<^verbatim>\<open>digest("hex")\<close> writes
  each byte as two lower-case hexadecimal digits.
\<close>

definition hexDigit :: "nat \<Rightarrow> char" where
  "hexDigit n = ''0123456789abcdef'' ! (n mod 16)"

definition hexByte :: "8 word \<Rightarrow> string" where
  "hexByte b = [hexDigit (unat b div 16), hexDigit (unat b mod 16)]"

definition digestHex :: "8 word list \<Rightarrow> string" where
  "digestHex bs = concat (map hexByte bs)"

definition urlToFilename :: "(string \<Rightarrow> 8 word list) \<Rightarrow> url \<Rightarrow> string" where
  "urlToFilename md5 url = (let md5Hash = digestHex (md5 url) in md5Hash @ ''.md'')"

section \<open>Document Assembler\<close>

text \<open>JavaScript truthiness of a string that may be absent: \<^verbatim>\<open>""\<close> is falsy too.\<close>

fun truthy :: "string option \<Rightarrow> bool" where
  "truthy None = False"
| "truthy (Some s) = (s \<noteq> [])"

text \<open>\<^verbatim>\<open>metadata.title || "Untitled"\<close>.\<close>

fun heading :: "string option \<Rightarrow> string" where
  "heading None = ''Untitled''"
| "heading (Some t) = (if t = [] then ''Untitled'' else t)"

definition metadata :: "url \<Rightarrow> ParseResult \<Rightarrow> string \<Rightarrow> Metadata" where
  "metadata siteUrl result now =
     \<lparr> meta_title = title result,
       meta_excerpt = excerpt result,
       meta_siteName = domain result,
       meta_url = siteUrl,
       meta_wordCount = word_count result,
       meta_length = word_count result,
       meta_processedAt = now,
       meta_author = author result,
       meta_date_published = date_published result,
       meta_lead_image_url = lead_image_url result \<rparr>"

text \<open>
  The template literal \<^verbatim>\<open>content\<close> (lines 114 to 120). \<open>yamlFrontmatter\<close> is what
  \<^verbatim>\<open>yamlDump(metadata)\<close> of js-yaml returned.
\<close>

definition document :: "string \<Rightarrow> string option \<Rightarrow> string \<Rightarrow> string" where
  "document yamlFrontmatter metaTitle markdown =
     ''---\<newline>'' @ yamlFrontmatter @ ''---\<newline>\<newline># '' @ heading metaTitle
       @ ''\<newline>\<newline>'' @ markdown @ ''\<newline>''"

text \<open>
  \<^verbatim>\<open>resolve(outputPath, filename)\<close> on POSIX paths. \<open>outputPath\<close> is itself the result
  of \<^verbatim>\<open>resolve(process.cwd(), outputDir)\<close>, so it is absolute and has no trailing
  separator unless it is the root.
\<close>

definition resolve :: "string \<Rightarrow> string \<Rightarrow> string" where
  "resolve outputPath filename =
     (if outputPath = ''/'' then ''/'' @ filename else outputPath @ ''/'' @ filename)"

section \<open>One attempt: processUrl\<close>

text \<open>
  What the world answers during one call of \<^verbatim>\<open>processUrl\<close>: the promise of
  \<^verbatim>\<open>Parser.parse\<close> (rejected, or resolved to a result that may be null), the clock
  read by \<^verbatim>\<open>new Date().toISOString()\<close>, whether \<^verbatim>\<open>writeFile\<close> rejects, and how
  many milliseconds the call takes to settle.
\<close>

record AttemptEnv =
  parsed :: "js_error + ParseResult option"
  clock :: string
  writeFails :: "js_error option"
  took :: nat

text \<open>\<^verbatim>\<open>{ success: true, url: siteUrl, path: filePath }\<close>.\<close>

record Saved =
  saved_url :: url
  saved_path :: string

text \<open>
  The result of the call and the \<^verbatim>\<open>writeFile(filePath, content, "utf-8")\<close> calls it made.
\<close>

record Attempted =
  returned :: "js_error + Saved"
  written :: "(string \<times> string) list"

definition processUrl ::
  "(string \<Rightarrow> 8 word list) \<Rightarrow> (Metadata \<Rightarrow> string) \<Rightarrow> string \<Rightarrow> url \<Rightarrow> AttemptEnv \<Rightarrow> Attempted"
where
  "processUrl md5 yamlDump outputPath siteUrl env =
     (case parsed env of
        Inl e \<Rightarrow> \<lparr> returned = Inl e, written = [] \<rparr>
      | Inr None \<Rightarrow> \<lparr> returned = Inl (Error ''No content found''), written = [] \<rparr>
      | Inr (Some result) \<Rightarrow>
          if \<not> truthy (content result)
          then \<lparr> returned = Inl (Error ''No content found''), written = [] \<rparr>
          else
            let markdown = (case content result of Some c \<Rightarrow> c | None \<Rightarrow> []);
                meta = metadata siteUrl result (clock env);
                yamlFrontmatter = yamlDump meta;
                text = document yamlFrontmatter (meta_title meta) markdown;
                filename = urlToFilename md5 siteUrl;
                filePath = resolve outputPath filename
            in (case writeFails env of
                  Some e \<Rightarrow> \<lparr> returned = Inl e, written = [(filePath, text)] \<rparr>
                | None \<Rightarrow>
                    \<lparr> returned = Inr \<lparr> saved_url = siteUrl, saved_path = filePath \<rparr>,
                      written = [(filePath, text)] \<rparr>))"

section \<open>Retry Policy Engine\<close>

text \<open>
  The delay \<^verbatim>\<open>onFailedAttempt\<close> computes and logs (lines 140 to 144):
  \<^verbatim>\<open>Math.min(parseInt(options.retryDelay || "1000") * Math.pow(2, retryCount - 1), 60000)\<close>.
  \<open>retryDelay\<close> is the parsed option, a non-negative integer; \<open>retryCount\<close> is
  \<^verbatim>\<open>error.attemptNumber\<close>, which is at least 1. The arithmetic is that of doubles:
  \<^verbatim>\<open>Math.pow(2, k)\<close> is exact up to \<open>k = 1023\<close> and infinite from \<open>k = 1024\<close> on; zero times
  infinity is \<^verbatim>\<open>NaN\<close>, and so is its minimum with 60000, which is \<open>None\<close> here; a product
  of a positive delay that is infinite, or rounded, lies above the cap and is cut to 60000
  as the exact product is.
\<close>

definition nextRetryDelay :: "nat \<Rightarrow> nat \<Rightarrow> nat option" where
  "nextRetryDelay retryDelay retryCount =
     (if retryDelay = 0 \<and> 1024 \<le> retryCount - 1 then None
      else Some (min (retryDelay * 2 ^ (retryCount - 1)) 60000))"

text \<open>
  p-retry is a dependency (\<^verbatim>\<open>"p-retry": "^6.2.1"\<close> in package.json), not a file of the
  repository. What follows is its contract for the options the source passes
  (\<^verbatim>\<open>retries\<close>, \<^verbatim>\<open>factor: 2\<close>, \<^verbatim>\<open>minTimeout\<close>, \<^verbatim>\<open>maxTimeout: 60000\<close>,
  \<^verbatim>\<open>onFailedAttempt\<close>): the operation is called once and called again after each
  failure that p-retry retries while a timeout is left, and \<^verbatim>\<open>retries\<close> is the number of
  timeouts.
\<close>

text \<open>
  The rejections p-retry retries, and what it rejects with at once for the others: a value
  that is not an \<^verbatim>\<open>Error\<close> becomes a \<^verbatim>\<open>TypeError\<close> saying so, an \<^verbatim>\<open>AbortError\<close> gives the
  error it wraps, and a \<^verbatim>\<open>TypeError\<close> that is no network error is thrown on as it is.
\<close>

fun retryable :: "js_error \<Rightarrow> bool" where
  "retryable (Error _) = True"
| "retryable (NetworkError _) = True"
| "retryable (TypeError _) = False"
| "retryable (AbortError _) = False"
| "retryable (NonError _) = False"

fun rethrown :: "js_error \<Rightarrow> js_error" where
  "rethrown (NonError v) =
     TypeError (''Non-error was thrown: '' @ [CHR 0x22] @ v @ [CHR 0x22]
       @ ''. You should only throw errors.'')"
| "rethrown (AbortError e) = e"
| "rethrown e = e"

text \<open>
  The timeouts the retry package computes: \<^verbatim>\<open>Math.min(Math.round(Math.max(minTimeout, 1)
  * Math.pow(factor, attempt)), maxTimeout)\<close> for \<open>attempt\<close> from 0 below \<open>retries\<close>,
  sorted ascending, which they are as computed. A product that is infinite in doubles lies
  above the cap and is cut to 60000 as the exact product is.
\<close>

definition createTimeout :: "nat \<Rightarrow> nat \<Rightarrow> nat" where
  "createTimeout minTimeout attempt = min (max minTimeout 1 * 2 ^ attempt) 60000"

definition timeouts :: "nat \<Rightarrow> nat \<Rightarrow> nat list" where
  "timeouts retries minTimeout = map (createTimeout minTimeout) [0..<retries]"

text \<open>
  The operation handed to \<^verbatim>\<open>pRetry\<close> is \<^verbatim>\<open>() => processUrl(siteUrl)\<close>: its \<open>k\<close>-th call
  (from 1) does what \<^verbatim>\<open>processUrl\<close> does in the world of that call and settles after
  the milliseconds that world takes.
\<close>

type_synonym operation = "nat \<Rightarrow> Attempted \<times> nat"

record Attempt =
  attemptNumber :: nat
  begunAt :: nat
  endedAt :: nat
  did :: Attempted

text \<open>
  The attempts made from attempt \<open>n\<close> at time \<open>t\<close>, with the timeouts still unused:
  a resolved attempt ends the run, and so does one rejected with what p-retry does not
  retry; any other rejected attempt takes the next timeout, waits it and attempts again,
  and with no timeout left the run ends.
\<close>

fun attempts :: "operation \<Rightarrow> nat list \<Rightarrow> nat \<Rightarrow> nat \<Rightarrow> Attempt list" where
  "attempts input [] n t =
     [\<lparr> attemptNumber = n, begunAt = t, endedAt = t + snd (input n), did = fst (input n) \<rparr>]"
| "attempts input (timeout # rest) n t =
     \<lparr> attemptNumber = n, begunAt = t, endedAt = t + snd (input n), did = fst (input n) \<rparr>
       # (case returned (fst (input n)) of
            Inr _ \<Rightarrow> []
          | Inl e \<Rightarrow>
              if retryable e then attempts input rest (Suc n) (t + snd (input n) + timeout)
              else [])"

text \<open>
  \<^verbatim>\<open>operation.mainError()\<close>, with which \<^verbatim>\<open>pRetry\<close> rejects once the timeouts are used up:
  the error whose message occurred most often, the later one on equal counts.
\<close>

fun mainErrorLoop ::
  "js_error list \<Rightarrow> (string \<Rightarrow> nat) \<Rightarrow> js_error \<Rightarrow> nat \<Rightarrow> js_error" where
  "mainErrorLoop [] counts mainErr mainErrorCount = mainErr"
| "mainErrorLoop (e # es) counts mainErr mainErrorCount =
     (let count = counts (message e) + 1;
          counts' = counts (message e := count)
      in if count \<ge> mainErrorCount then mainErrorLoop es counts' e count
         else mainErrorLoop es counts' mainErr mainErrorCount)"

definition mainError :: "js_error \<Rightarrow> js_error list \<Rightarrow> js_error" where
  "mainError e errors = mainErrorLoop errors (\<lambda>_. 0) e 0"

text \<open>
  The errors handed to \<^verbatim>\<open>operation.retry\<close>, in order: those of the attempts rejected with
  what p-retry retries.
\<close>

fun rejections :: "Attempt list \<Rightarrow> js_error list" where
  "rejections [] = []"
| "rejections (a # as) =
     (case returned (did a) of
        Inl e \<Rightarrow> if retryable e then e # rejections as else rejections as
      | Inr _ \<Rightarrow> rejections as)"

text \<open>Whether an attempt was rejected with what p-retry retries.\<close>

definition failedRetryably :: "Attempt \<Rightarrow> bool" where
  "failedRetryably a = (case returned (did a) of Inl e \<Rightarrow> retryable e | Inr _ \<Rightarrow> False)"

text \<open>
  A call of \<^verbatim>\<open>onFailedAttempt\<close> (lines 137 to 155): the attempt number it logs as
  \<^verbatim>\<open>retryCount\<close>, the \<^verbatim>\<open>maxRetries\<close> it logs, and the \<^verbatim>\<open>nextRetryDelay\<close> it logs.
\<close>

record FailedAttempt =
  retryCount :: nat
  maxRetries :: nat
  loggedDelay :: "nat option"

definition onFailedAttempt :: "nat \<Rightarrow> nat \<Rightarrow> nat \<Rightarrow> FailedAttempt" where
  "onFailedAttempt retriesOpt retryDelayOpt n =
     \<lparr> retryCount = n, maxRetries = retriesOpt, loggedDelay = nextRetryDelay retryDelayOpt n \<rparr>"

record RetryRun =
  calledAt :: nat
  made :: "Attempt list"
  failedAttempts :: "FailedAttempt list"
  settled :: "js_error + Saved"
  settledAt :: nat

text \<open>
  \<^verbatim>\<open>pRetry(() => processUrl(siteUrl), retryOptions)\<close> called at time \<open>t\<close>. The retry
  package refuses options with \<^verbatim>\<open>minTimeout > maxTimeout\<close> before any attempt.
  \<^verbatim>\<open>onFailedAttempt\<close> is called for the attempts rejected with what p-retry retries; a run
  whose last attempt was so rejected is rejected with \<^verbatim>\<open>mainError()\<close>, one whose last
  attempt was rejected otherwise with what is thrown on.
\<close>

definition pRetry :: "operation \<Rightarrow> nat \<Rightarrow> nat \<Rightarrow> nat \<Rightarrow> RetryRun" where
  "pRetry input retriesOpt retryDelayOpt t =
     (if retryDelayOpt > 60000
      then \<lparr> calledAt = t, made = [], failedAttempts = [],
             settled = Inl (Error ''minTimeout is greater than maxTimeout''), settledAt = t \<rparr>
      else
        let as = attempts input (timeouts retriesOpt retryDelayOpt) 1 t;
            final = last as
        in \<lparr> calledAt = t, made = as,
             failedAttempts =
               map (\<lambda>a. onFailedAttempt retriesOpt retryDelayOpt (attemptNumber a))
                 (filter failedRetryably as),
             settled =
               (case returned (did final) of
                  Inr saved \<Rightarrow> Inr saved
                | Inl e \<Rightarrow>
                    if retryable e then Inl (mainError e (rejections as))
                    else Inl (rethrown e)),
             settledAt = endedAt final \<rparr>)"

section \<open>Throttled Scheduler and Batch Coordinator\<close>

text \<open>
  The options as the action reads them: \<^verbatim>\<open>options.continue\<close>, and the numbers
  \<^verbatim>\<open>parseInt(options.retries || "3")\<close>, \<^verbatim>\<open>parseInt(options.retryDelay || "1000")\<close> and
  \<^verbatim>\<open>parseInt(options.rateLimit || "1")\<close>, taken to be non-negative integers.
\<close>

record CrawlOptions =
  continue :: bool
  retries :: nat
  retryDelay :: nat
  rateLimit :: nat

text \<open>
  The world of one run: the platform's digest, js-yaml's \<^verbatim>\<open>dump\<close>, the resolved output
  directory, and the answers to the \<open>k\<close>-th call of \<^verbatim>\<open>processUrl\<close> for the \<open>i\<close>-th site
  (\<open>i\<close> from 0, \<open>k\<close> from 1).
\<close>

record World =
  hash :: "string \<Rightarrow> 8 word list"
  dump :: "Metadata \<Rightarrow> string"
  outDir :: string
  answers :: "nat \<Rightarrow> nat \<Rightarrow> AttemptEnv"

text \<open>
  p-throttle is a dependency (\<^verbatim>\<open>"p-throttle": "^7.0.0"\<close> in package.json); the source
  leaves it on its default, windowed algorithm. Its state is the start \<open>currentTick\<close> of
  the current window and the number \<open>activeCount\<close> of calls admitted to it; \<open>None\<close> is the
  limiter before its first call, whose \<open>currentTick\<close> of 0, the start of 1970, lies more
  than an interval before any reading of the clock. \<^verbatim>\<open>windowedDelay\<close> reads the clock,
  moves the state and gives the delay after which the call starts; a delay that is not
  positive is no delay, so the differences are cut at 0 where those of JavaScript are
  negative.
\<close>

type_synonym throttle = "(nat \<times> nat) option"

fun windowedDelay :: "nat \<Rightarrow> nat \<Rightarrow> nat \<Rightarrow> throttle \<Rightarrow> nat \<times> throttle" where
  "windowedDelay limit interval now None = (0, Some (now, 1))"
| "windowedDelay limit interval now (Some (currentTick, activeCount)) =
     (if now - currentTick > interval then (0, Some (now, 1))
      else if activeCount < limit
      then (currentTick - now, Some (currentTick, activeCount + 1))
      else (currentTick + interval - now, Some (currentTick + interval, 1)))"

text \<open>
  The times at which the limiter \<^verbatim>\<open>pThrottle({ limit, interval: 1000 })\<close> starts the calls
  it is given, one call per reading of the clock.
\<close>

fun pThrottle :: "nat \<Rightarrow> nat list \<Rightarrow> throttle \<Rightarrow> nat list" where
  "pThrottle limit [] state = []"
| "pThrottle limit (now # nows) state =
     (case windowedDelay limit 1000 now state of
        (delay, state') \<Rightarrow> (now + delay) # pThrottle limit nows state')"

text \<open>
  When the retried operation of each of \<open>n\<close> sites starts, in milliseconds after
  \<^verbatim>\<open>sites.map\<close> ran. The map is synchronous and is one instant of this timeline, time 0:
  it makes all its calls of \<^verbatim>\<open>throttledFn\<close> then. Under a positive rate limit the limiter
  decides when each starts; otherwise \<^verbatim>\<open>throttledFn\<close> is the plain async function (lines
  167 to 169) and each starts within its call.
\<close>

definition startTimes :: "CrawlOptions \<Rightarrow> nat \<Rightarrow> nat list" where
  "startTimes options n =
     (if rateLimit options > 0 then pThrottle (rateLimit options) (replicate n 0) None
      else replicate n 0)"

text \<open>
  \<^verbatim>\<open>throttledFn\<close> (lines 159 to 169) for the \<open>i\<close>-th site, started at the given time:
  \<^verbatim>\<open>pRetry(() => processUrl(siteUrl), retryOptions)\<close> on either branch.
\<close>

definition throttledFn :: "CrawlOptions \<Rightarrow> World \<Rightarrow> nat \<Rightarrow> url \<Rightarrow> nat \<Rightarrow> RetryRun" where
  "throttledFn options world i siteUrl startedAt =
     pRetry
       (\<lambda>k. (processUrl (hash world) (dump world) (outDir world) siteUrl (answers world i k),
             took (answers world i k)))
       (retries options) (retryDelay options) startedAt"

text \<open>
  What the mapped callback returns: the value of \<^verbatim>\<open>throttledFn\<close>, or
  \<^verbatim>\<open>{ success: false, url: siteUrl, error }\<close>.
\<close>

datatype outcome = Success Saved | Failure url js_error

text \<open>An entry of the array \<^verbatim>\<open>Promise.allSettled\<close> resolves to.\<close>

datatype settledPromise = Fulfilled outcome | Rejected js_error

fun isFulfilled :: "settledPromise \<Rightarrow> bool" where
  "isFulfilled (Fulfilled _) = True"
| "isFulfilled (Rejected _) = False"

fun isRejected :: "settledPromise \<Rightarrow> bool" where
  "isRejected (Fulfilled _) = False"
| "isRejected (Rejected _) = True"

text \<open>
  The callback mapped over \<^verbatim>\<open>sites\<close> (lines 172 to 200) once \<^verbatim>\<open>throttledFn\<close> has settled:
  the \<^verbatim>\<open>try\<close> returns the value; the \<^verbatim>\<open>catch\<close> reports the error and then either ends the
  process with \<^verbatim>\<open>process.exit(1)\<close>, which is \<open>None\<close>, or returns the failure object, so
  the callback's promise is fulfilled either way.
\<close>

definition callback :: "CrawlOptions \<Rightarrow> url \<Rightarrow> RetryRun \<Rightarrow> settledPromise option" where
  "callback options siteUrl run =
     (case settled run of
        Inr saved \<Rightarrow> Some (Fulfilled (Success saved))
      | Inl error \<Rightarrow>
          if \<not> continue options then None else Some (Fulfilled (Failure siteUrl error)))"

definition runs :: "CrawlOptions \<Rightarrow> World \<Rightarrow> url list \<Rightarrow> (url \<times> RetryRun) list" where
  "runs options world sites =
     map (\<lambda>((i, siteUrl), startedAt). (siteUrl, throttledFn options world i siteUrl startedAt))
       (zip (enumerate 0 sites) (startTimes options (length sites)))"

fun earliest :: "nat list \<Rightarrow> nat option" where
  "earliest [] = None"
| "earliest (t # ts) = (case earliest ts of None \<Rightarrow> Some t | Some m \<Rightarrow> Some (min t m))"

text \<open>
  What a run shows: the exit status, the sites whose \<^verbatim>\<open>throttledFn\<close> body was started, the
  values the callbacks returned, the errors reported by \<^verbatim>\<open>console.error\<close> as
  \<^verbatim>\<open>Error processing <url> after all retry attempts:\<close>, whether
  \<^verbatim>\<open>Stopping due to error.\<close> was printed, and the numbers of the line
  \<^verbatim>\<open>Completed processing <n> URLs from sitemap: <s> successful, <f> failed\<close>.
\<close>

record Crawl =
  exitCode :: nat
  started :: "url list"
  outcomes :: "outcome list"
  reported :: "(url \<times> string) list"
  stopping :: bool
  completed :: "(nat \<times> nat \<times> nat) option"

fun fulfilledWith :: "settledPromise \<Rightarrow> outcome list" where
  "fulfilledWith (Fulfilled v) = [v]"
| "fulfilledWith (Rejected _) = []"

text \<open>\<^verbatim>\<open>error instanceof Error ? error.message : "Unknown error occurred"\<close>.\<close>

fun reportedMessage :: "js_error \<Rightarrow> string" where
  "reportedMessage (NonError _) = ''Unknown error occurred''"
| "reportedMessage (AbortError e) = reportedMessage e"
| "reportedMessage e = message e"

fun errorReport :: "url \<times> RetryRun \<Rightarrow> (url \<times> string) list" where
  "errorReport (siteUrl, run) =
     (case settled run of Inl error \<Rightarrow> [(siteUrl, reportedMessage error)] | Inr _ \<Rightarrow> [])"

text \<open>
  The action from \<^verbatim>\<open>sites\<close> on (lines 171 to 215). The operations of the sites run
  independently of each other; only \<^verbatim>\<open>process.exit(1)\<close> in a callback cuts the others
  short. Without such an exit every callback's promise settles, the two counts are taken
  over the settled array and the process exits with 0. Otherwise the process ends at the
  earliest time \<open>T\<close> at which a callback exits: what happened up to \<open>T\<close> has happened (the
  exit is taken as the last event of its millisecond, and of several exits at \<open>T\<close> the one
  of the earlier site is taken), nothing later does.
\<close>

definition crawlSites :: "CrawlOptions \<Rightarrow> World \<Rightarrow> url list \<Rightarrow> Crawl" where
  "crawlSites options world sites =
     (let rs = runs options world sites;
          exits = filter (\<lambda>(siteUrl, run). callback options siteUrl run = None) rs
      in case earliest (map (\<lambda>(siteUrl, run). settledAt run) exits) of
           None \<Rightarrow>
             let results = List.map_filter (\<lambda>(siteUrl, run). callback options siteUrl run) rs;
                 successful = length (filter isFulfilled results);
                 failed = length (filter isRejected results)
             in \<lparr> exitCode = 0,
                  started = sites,
                  outcomes = concat (map fulfilledWith results),
                  reported = concat (map errorReport rs),
                  stopping = False,
                  completed = Some (length sites, successful, failed) \<rparr>
         | Some T \<Rightarrow>
             \<lparr> exitCode = 1,
               started = map fst (filter (\<lambda>(siteUrl, run). calledAt run \<le> T) rs),
               outcomes =
                 concat (map fulfilledWith (List.map_filter
                   (\<lambda>(siteUrl, run). if settledAt run \<le> T then callback options siteUrl run else None) rs)),
               reported = take 1 (concat (map errorReport
                   (filter (\<lambda>(siteUrl, run). settledAt run = T) exits))),
               stopping = True,
               completed = None \<rparr>)"

section \<open>Example worlds\<close>

text \<open>
  A page with a title and a body; a world in which the site at index 1 is refused on every
  call and every other site answers with that page, each call taking 100 ms; the digest
  is a toy one (the bytes of the URL itself);
  an operation that is refused on every call; and answers whose first call finds no
  content and whose later calls find the page.
\<close>

definition page :: ParseResult where
  "page = \<lparr> title = Some ''Page'', content = Some ''Hello'', excerpt = None,
            domain = Some ''example.com'', word_count = Some 1, author = None,
            date_published = None, lead_image_url = None \<rparr>"

definition abcWorld :: World where
  "abcWorld =
     \<lparr> hash = map (\<lambda>c. of_nat (of_char c)),
       dump = (\<lambda>m. ''url: '' @ meta_url m @ ''\<newline>''),
       outDir = ''/out'',
       answers = (\<lambda>i k. \<lparr> parsed = (if i = 1 then Inl (Error ''HTTP 500'') else Inr (Some page)),
                          clock = ''2025-01-01T00:00:00.000Z'', writeFails = None, took = 100 \<rparr>) \<rparr>"

definition alwaysFailing :: operation where
  "alwaysFailing = (\<lambda>k. (\<lparr> returned = Inl (Error ''HTTP 500''), written = [] \<rparr>, 100))"

definition emptyThenPage :: "nat \<Rightarrow> AttemptEnv" where
  "emptyThenPage k =
     \<lparr> parsed = (if k = 1 then Inr None else Inr (Some page)),
       clock = ''2025-01-01T00:00:00.000Z'', writeFails = None, took = 100 \<rparr>"

lemmas eval_defs =
  crawlSites_def runs_def throttledFn_def pRetry_def timeouts_def createTimeout_def
  processUrl_def urlToFilename_def digestHex_def hexByte_def hexDigit_def resolve_def
  document_def metadata_def callback_def mainError_def onFailedAttempt_def nextRetryDelay_def
  startTimes_def failedRetryably_def
  abcWorld_def page_def alwaysFailing_def emptyThenPage_def
  Let_def List.map_filter_def enumerate_eq_zip upt_rec

section \<open>Filename Deriver: properties\<close>

lemma hexDigit_in: "hexDigit n \<in> set ''0123456789abcdef''"
  unfolding hexDigit_def by (rule nth_mem) simp

lemma set_hexByte: "set (hexByte b) \<subseteq> set ''0123456789abcdef''"
  unfolding hexByte_def using hexDigit_in by simp

lemma set_digestHex: "set (digestHex bs) \<subseteq> set ''0123456789abcdef''"
proof (induction bs)
  case Nil
  show ?case by (simp add: digestHex_def)
next
  case (Cons b bs)
  have "set (digestHex (b # bs)) = set (hexByte b) \<union> set (digestHex bs)"
    by (simp add: digestHex_def)
  with Cons set_hexByte [of b] show ?case by blast
qed

lemma length_digestHex: "length (digestHex bs) = 2 * length bs"
  unfolding digestHex_def by (induction bs) (simp_all add: hexByte_def)

text \<open>
  Claim C6. For every URL, \<^verbatim>\<open>urlToFilename\<close> is a function of the URL alone (the hexadecimal
  digest followed by \<^verbatim>\<open>.md\<close>), and its result is a non-empty single path segment: it
  holds no slash, no backslash and no NUL, only hexadecimal digits before the fixed
  extension.
\<close>

theorem urlToFilename_single_segment:
  "urlToFilename md5 u = digestHex (md5 u) @ ''.md''
   \<and> urlToFilename md5 u \<noteq> []
   \<and> CHR ''/'' \<notin> set (urlToFilename md5 u)
   \<and> CHR 0x5C \<notin> set (urlToFilename md5 u)
   \<and> CHR 0x00 \<notin> set (urlToFilename md5 u)
   \<and> set (digestHex (md5 u)) \<subseteq> set ''0123456789abcdef''
   \<and> length (urlToFilename md5 u) = 2 * length (md5 u) + 3"
proof -
  have sub: "set (digestHex (md5 u)) \<subseteq> set ''0123456789abcdef''"
    by (rule set_digestHex)
  have a: "CHR ''/'' \<notin> set (digestHex (md5 u))" using sub by auto
  have b: "CHR 0x5C \<notin> set (digestHex (md5 u))" using sub by auto
  have c: "CHR 0x00 \<notin> set (digestHex (md5 u))" using sub by auto
  show ?thesis
    using sub a b c by (simp add: urlToFilename_def length_digestHex)
qed

section \<open>Document Assembler: properties\<close>

text \<open>
  Claim C8. Whenever the extraction result has a non-empty body, the text handed to
  \<^verbatim>\<open>writeFile\<close> is the metadata block between two \<^verbatim>\<open>---\<close> lines, then a heading that is
  the title, or \<^verbatim>\<open>Untitled\<close> when the title is absent or empty, then the body.
\<close>

theorem processUrl_document_layout:
  assumes "parsed env = Inr (Some result)" and "content result = Some body" and "body \<noteq> []"
  shows "map snd (written (processUrl md5 yamlDump outputPath siteUrl env)) =
           [''---\<newline>'' @ yamlDump (metadata siteUrl result (clock env)) @ ''---\<newline>\<newline># ''
              @ (case title result of None \<Rightarrow> ''Untitled''
                 | Some t \<Rightarrow> if t = [] then ''Untitled'' else t)
              @ ''\<newline>\<newline>'' @ body @ ''\<newline>'']"
  using assms
  by (cases "title result")
     (auto simp: processUrl_def document_def metadata_def Let_def split: option.splits)

theorem processUrl_document_layout_witness:
  "parsed (answers abcWorld 0 1) = Inr (Some page) \<and> content page = Some ''Hello''
   \<and> ''Hello'' \<noteq> []
   \<and> map snd (written (processUrl (hash abcWorld) (dump abcWorld) ''/out'' ''A''
         (answers abcWorld 0 1)))
       = [''---\<newline>url: A\<newline>---\<newline>\<newline># Page\<newline>\<newline>Hello\<newline>'']"
proof -
  have h1: "parsed (answers abcWorld 0 1) = Inr (Some page)" by (simp add: abcWorld_def)
  have h2: "content page = Some ''Hello''" by (simp add: page_def)
  have h3: "''Hello'' \<noteq> []" by simp
  from processUrl_document_layout [OF h1 h2 h3, of "hash abcWorld" "dump abcWorld" "''/out''" "''A''"]
  show ?thesis using h1 h2 by (simp add: abcWorld_def page_def metadata_def)
qed

text \<open>
  Claim C10. In the metadata of every assembled document the \<^verbatim>\<open>length\<close> field equals the
  \<^verbatim>\<open>wordCount\<close> field: both are the extractor's \<^verbatim>\<open>word_count\<close>.
\<close>

theorem metadata_length_is_wordCount:
  "meta_length (metadata siteUrl result now) = meta_wordCount (metadata siteUrl result now)
   \<and> meta_wordCount (metadata siteUrl result now) = word_count result"
  by (simp add: metadata_def)

section \<open>Retry Policy Engine: properties\<close>

lemma attempts_not_Nil: "attempts input ts n t \<noteq> []"
  by (cases ts) simp_all

lemma attempts_Cons:
  "attempts input (w # ws) n t =
     \<lparr> attemptNumber = n, begunAt = t, endedAt = t + snd (input n), did = fst (input n) \<rparr>
       # (if failedRetryably
               \<lparr> attemptNumber = n, begunAt = t, endedAt = t + snd (input n), did = fst (input n) \<rparr>
          then attempts input ws (Suc n) (t + snd (input n) + w) else [])"
  by (simp add: failedRetryably_def split: sum.splits)

lemma length_attempts: "length (attempts input ts n t) \<le> Suc (length ts)"
proof (induction ts arbitrary: n t)
  case Nil
  show ?case by simp
next
  case (Cons w ws)
  from Cons [of "Suc n" "t + snd (input n) + w"] show ?case
    by (simp only: attempts_Cons) simp
qed

lemma attemptNumber_attempts:
  "map attemptNumber (attempts input ts n t) = [n ..< n + length (attempts input ts n t)]"
proof (induction ts arbitrary: n t)
  case Nil
  show ?case by simp
next
  case (Cons w ws)
  from Cons [of "Suc n" "t + snd (input n) + w"] show ?case
    by (simp only: attempts_Cons) (simp add: upt_rec)
qed

lemma did_attempts:
  "a \<in> set (attempts input ts n t) \<Longrightarrow> did a = fst (input (attemptNumber a))"
proof (induction ts arbitrary: n t)
  case Nil
  then show ?case by simp
next
  case (Cons w ws)
  from Cons.prems Cons.IH [of "Suc n" "t + snd (input n) + w"] show ?case
    by (simp only: attempts_Cons) (auto split: if_splits)
qed

lemma butlast_attempts_failed:
  "a \<in> set (butlast (attempts input ts n t)) \<Longrightarrow> failedRetryably a"
proof (induction ts arbitrary: n t)
  case Nil
  then show ?case by simp
next
  case (Cons w ws)
  from Cons.prems Cons.IH [of "Suc n" "t + snd (input n) + w"] show ?case
    by (simp only: attempts_Cons) (auto simp: attempts_not_Nil split: if_splits)
qed

lemma last_attempts_failed:
  "failedRetryably (last (attempts input ts n t)) \<Longrightarrow>
     length (attempts input ts n t) = Suc (length ts)"
proof (induction ts arbitrary: n t)
  case Nil
  show ?case by simp
next
  case (Cons w ws)
  from Cons.prems Cons.IH [of "Suc n" "t + snd (input n) + w"] show ?case
    by (simp only: attempts_Cons) (auto simp: attempts_not_Nil split: if_splits)
qed

lemma attempts_next:
  "j < length (attempts input ts n t) \<Longrightarrow> failedRetryably (attempts input ts n t ! j)
     \<Longrightarrow> j < length ts \<Longrightarrow> Suc j < length (attempts input ts n t)"
proof (induction ts arbitrary: j n t)
  case Nil
  then show ?case by simp
next
  case (Cons w ws)
  show ?case
  proof (cases j)
    case 0
    with Cons.prems show ?thesis
      by (simp only: attempts_Cons) (simp add: attempts_not_Nil)
  next
    case (Suc i)
    with Cons.prems Cons.IH [of i "Suc n" "t + snd (input n) + w"] show ?thesis
      by (simp only: attempts_Cons) (auto split: if_splits)
  qed
qed

lemma attempts_wait:
  "Suc j < length (attempts input ts n t) \<Longrightarrow>
     begunAt (attempts input ts n t ! Suc j) = endedAt (attempts input ts n t ! j) + ts ! j"
proof (induction ts arbitrary: j n t)
  case Nil
  then show ?case by simp
next
  case (Cons w ws)
  show ?case
  proof (cases j)
    case 0
    with Cons.prems show ?thesis
      by (simp only: attempts_Cons) (cases ws; auto split: if_splits)
  next
    case (Suc i)
    with Cons.prems Cons.IH [of i "Suc n" "t + snd (input n) + w"] show ?thesis
      by (simp only: attempts_Cons) (auto split: if_splits)
  qed
qed

lemma attemptNumber_nth:
  assumes "j < length (attempts input ts n t)"
  shows "attemptNumber (attempts input ts n t ! j) = n + j"
proof -
  have "attemptNumber (attempts input ts n t ! j) = map attemptNumber (attempts input ts n t) ! j"
    using assms by simp
  also have "\<dots> = [n ..< n + length (attempts input ts n t)] ! j"
    by (simp only: attemptNumber_attempts [symmetric])
  also have "\<dots> = n + j"
    using assms by (rule nth_upt [OF add_strict_left_mono])
  finally show ?thesis .
qed

lemma attempts_retried:
  assumes "a \<in> set (attempts input ts n t)" and "failedRetryably a"
    and "attemptNumber a < n + length ts"
  shows "Suc (attemptNumber a) \<in> set (map attemptNumber (attempts input ts n t))"
proof -
  let ?as = "attempts input ts n t"
  from assms(1) obtain j where j: "j < length ?as" and a: "a = ?as ! j"
    by (auto simp: in_set_conv_nth)
  have num: "attemptNumber a = n + j" unfolding a using j by (rule attemptNumber_nth)
  with assms(3) have "j < length ts" by simp
  with j assms(2) have nxt: "Suc j < length ?as" unfolding a by (rule attempts_next)
  from nxt have "attemptNumber (?as ! Suc j) = n + Suc j" by (rule attemptNumber_nth)
  then have "attemptNumber (?as ! Suc j) = Suc (attemptNumber a)" using num by simp
  moreover have "?as ! Suc j \<in> set ?as" using nxt by simp
  ultimately show ?thesis by force
qed

lemma attempts_number_bound:
  assumes "k \<in> set (map attemptNumber (attempts input ts n t))"
  shows "n \<le> k \<and> k \<le> n + length ts"
proof -
  from assms have "k \<in> set [n ..< n + length (attempts input ts n t)]"
    by (simp only: attemptNumber_attempts [symmetric])
  then have "n \<le> k" and "k < n + length (attempts input ts n t)" by auto
  with length_attempts [of input ts n t] show ?thesis by simp
qed

lemma attempts_followed:
  assumes "a \<in> set (attempts input ts n t)"
    and "Suc (attemptNumber a) \<in> set (map attemptNumber (attempts input ts n t))"
  shows "a \<in> set (butlast (attempts input ts n t))"
proof -
  let ?as = "attempts input ts n t"
  from assms(1) obtain j where j: "j < length ?as" and a: "a = ?as ! j"
    by (auto simp: in_set_conv_nth)
  have num: "attemptNumber a = n + j" unfolding a using j by (rule attemptNumber_nth)
  from assms(2) have "Suc (attemptNumber a) \<in> set [n ..< n + length ?as]"
    by (simp only: attemptNumber_attempts [symmetric])
  then have "Suc j < length ?as" using num by auto
  then have "j < length (butlast ?as)" by simp
  moreover from this have "butlast ?as ! j = ?as ! j" by (simp add: nth_butlast)
  ultimately show ?thesis unfolding a by (metis nth_mem)
qed

lemma last_attemptNumber:
  "attemptNumber (last (attempts input ts n t)) = n + length (attempts input ts n t) - 1"
proof -
  let ?as = "attempts input ts n t"
  have ne: "?as \<noteq> []" by (rule attempts_not_Nil)
  then have "last ?as = ?as ! (length ?as - 1)" by (rule last_conv_nth)
  moreover have "length ?as - 1 < length ?as" using ne by simp
  ultimately have "attemptNumber (last ?as) = n + (length ?as - 1)"
    using attemptNumber_nth [of "length ?as - 1" input ts n t] by simp
  then show ?thesis using ne by (cases ?as) simp_all
qed

lemma failedRetryably_isl: "failedRetryably a \<Longrightarrow> isl (returned (did a))"
  by (cases "returned (did a)") (simp_all add: failedRetryably_def)

lemma length_timeouts: "length (timeouts r d) = r"
  by (simp add: timeouts_def)

lemma made_pRetry:
  "d \<le> 60000 \<Longrightarrow> made (pRetry input r d t) = attempts input (timeouts r d) 1 t"
  by (simp add: pRetry_def Let_def)

lemma made_pRetry_refused:
  "60000 < d \<Longrightarrow> made (pRetry input r d t) = []"
  by (simp add: pRetry_def)

lemma failedAttempts_pRetry_refused:
  "60000 < d \<Longrightarrow> failedAttempts (pRetry input r d t) = []"
  by (simp add: pRetry_def)

lemma settled_pRetry_refused:
  "60000 < d \<Longrightarrow> settled (pRetry input r d t) = Inl (Error ''minTimeout is greater than maxTimeout'')"
  by (simp add: pRetry_def)

lemma settled_pRetry:
  "d \<le> 60000 \<Longrightarrow> settled (pRetry input r d t) =
     (case returned (did (last (attempts input (timeouts r d) 1 t))) of
        Inr saved \<Rightarrow> Inr saved
      | Inl e \<Rightarrow>
          if retryable e
          then Inl (mainError e (rejections (attempts input (timeouts r d) 1 t)))
          else Inl (rethrown e))"
  by (simp add: pRetry_def Let_def del: One_nat_def)

lemma failedAttempts_pRetry:
  "d \<le> 60000 \<Longrightarrow> failedAttempts (pRetry input r d t) =
     map (\<lambda>a. onFailedAttempt r d (attemptNumber a))
       (filter failedRetryably (attempts input (timeouts r d) 1 t))"
  by (simp add: pRetry_def Let_def del: One_nat_def)

text \<open>
  Claim C4, as the code has it. After a failed attempt \<open>n\<close> (counted from 1) that is
  followed by another attempt, the delay waited before that attempt is
  \<open>min (max initialRetryDelayMs 1 * 2 ^ (n - 1)) 60000\<close>; when the initial delay is at least
  1 ms this is \<open>min (initialRetryDelayMs * 2 ^ (n - 1)) 60000\<close>, and it is then also the
  delay \<^verbatim>\<open>onFailedAttempt\<close> logs for each failed attempt \<open>n\<close>.
\<close>

theorem pRetry_backoff_delay:
  "(\<forall>j. Suc j < length (made (pRetry input retriesOpt initialRetryDelayMs t)) \<longrightarrow>
       begunAt (made (pRetry input retriesOpt initialRetryDelayMs t) ! Suc j)
         = endedAt (made (pRetry input retriesOpt initialRetryDelayMs t) ! j)
           + min (max initialRetryDelayMs 1
                   * 2 ^ (attemptNumber (made (pRetry input retriesOpt initialRetryDelayMs t) ! j) - 1))
               60000)
   \<and> (1 \<le> initialRetryDelayMs \<longrightarrow>
        (\<forall>j. Suc j < length (made (pRetry input retriesOpt initialRetryDelayMs t)) \<longrightarrow>
           begunAt (made (pRetry input retriesOpt initialRetryDelayMs t) ! Suc j)
             = endedAt (made (pRetry input retriesOpt initialRetryDelayMs t) ! j)
               + min (initialRetryDelayMs
                       * 2 ^ (attemptNumber (made (pRetry input retriesOpt initialRetryDelayMs t) ! j) - 1))
                   60000)
      \<and> (\<forall>f \<in> set (failedAttempts (pRetry input retriesOpt initialRetryDelayMs t)).
           1 \<le> retryCount f
         \<and> loggedDelay f = Some (min (initialRetryDelayMs * 2 ^ (retryCount f - 1)) 60000)))"
proof (cases "initialRetryDelayMs \<le> 60000")
  case False
  then show ?thesis by (simp add: made_pRetry_refused failedAttempts_pRetry_refused)
next
  case True
  let ?ts = "timeouts retriesOpt initialRetryDelayMs"
  let ?as = "attempts input ?ts 1 t"
  have m: "made (pRetry input retriesOpt initialRetryDelayMs t) = ?as"
    using True by (rule made_pRetry)
  have f: "failedAttempts (pRetry input retriesOpt initialRetryDelayMs t) =
     map (\<lambda>a. onFailedAttempt retriesOpt initialRetryDelayMs (attemptNumber a))
       (filter failedRetryably ?as)"
    using True by (rule failedAttempts_pRetry)
  have wait: "begunAt (?as ! Suc j) = endedAt (?as ! j)
           + min (max initialRetryDelayMs 1 * 2 ^ (attemptNumber (?as ! j) - 1)) 60000"
    if j: "Suc j < length ?as" for j
  proof -
    from j have jl: "j < length ?as" by simp
    have "Suc j < Suc (length ?ts)"
      using j length_attempts [of input ?ts 1 t] by simp
    then have jr: "j < retriesOpt" by (simp add: length_timeouts)
    have num: "attemptNumber (?as ! j) = 1 + j"
      using jl by (rule attemptNumber_nth)
    have "?ts ! j = createTimeout initialRetryDelayMs j"
      using jr by (simp add: timeouts_def)
    then have "?ts ! j = min (max initialRetryDelayMs 1 * 2 ^ (attemptNumber (?as ! j) - 1)) 60000"
      using num by (simp add: createTimeout_def)
    with attempts_wait [OF j] show ?thesis by simp
  qed
  have logged: "1 \<le> retryCount f
         \<and> loggedDelay f = Some (min (initialRetryDelayMs * 2 ^ (retryCount f - 1)) 60000)"
    if pos: "1 \<le> initialRetryDelayMs"
      and mem: "f \<in> set (map (\<lambda>a. onFailedAttempt retriesOpt initialRetryDelayMs (attemptNumber a))
                 (filter failedRetryably ?as))" for f
  proof -
    from mem obtain a where a: "a \<in> set ?as"
      and fa: "f = onFailedAttempt retriesOpt initialRetryDelayMs (attemptNumber a)" by auto
    from a have "attemptNumber a \<in> set (map attemptNumber ?as)" by simp
    then have "1 \<le> attemptNumber a" using attempts_number_bound by blast
    with pos show ?thesis unfolding fa by (simp add: onFailedAttempt_def nextRetryDelay_def)
  qed
  have 1: "\<forall>j. Suc j < length ?as \<longrightarrow>
       begunAt (?as ! Suc j) = endedAt (?as ! j)
           + min (max initialRetryDelayMs 1 * 2 ^ (attemptNumber (?as ! j) - 1)) 60000"
    using wait by blast
  have 2: "1 \<le> initialRetryDelayMs \<longrightarrow>
        (\<forall>j. Suc j < length ?as \<longrightarrow>
           begunAt (?as ! Suc j) = endedAt (?as ! j)
               + min (initialRetryDelayMs * 2 ^ (attemptNumber (?as ! j) - 1)) 60000)"
  proof
    assume "1 \<le> initialRetryDelayMs"
    then have "max initialRetryDelayMs 1 = initialRetryDelayMs" by simp
    with 1 show "\<forall>j. Suc j < length ?as \<longrightarrow>
           begunAt (?as ! Suc j) = endedAt (?as ! j)
               + min (initialRetryDelayMs * 2 ^ (attemptNumber (?as ! j) - 1)) 60000"
      by simp
  qed
  have 3: "1 \<le> initialRetryDelayMs \<longrightarrow>
        (\<forall>f \<in> set (map (\<lambda>a. onFailedAttempt retriesOpt initialRetryDelayMs (attemptNumber a))
                 (filter failedRetryably ?as)).
           1 \<le> retryCount f
         \<and> loggedDelay f = Some (min (initialRetryDelayMs * 2 ^ (retryCount f - 1)) 60000))"
    using logged by blast
  show ?thesis unfolding m f using 1 2 3 by blast
qed

text \<open>
  With an initial delay of 1000 ms and an operation that always fails, the attempts 2, 3
  and 4 begin 1000, 2000 and 4000 ms after the attempt before them ended, and those are
  the delays logged after the attempts 1, 2 and 3.
\<close>

theorem pRetry_backoff_delay_witness:
  "(1::nat) \<le> 1000
   \<and> map begunAt (made (pRetry alwaysFailing 3 1000 0)) = [0, 1100, 3200, 7300]
   \<and> map endedAt (made (pRetry alwaysFailing 3 1000 0)) = [100, 1200, 3300, 7400]
   \<and> begunAt (made (pRetry alwaysFailing 3 1000 0) ! Suc 0)
       = endedAt (made (pRetry alwaysFailing 3 1000 0) ! 0) + 1000
   \<and> begunAt (made (pRetry alwaysFailing 3 1000 0) ! Suc 1)
       = endedAt (made (pRetry alwaysFailing 3 1000 0) ! 1) + 2000
   \<and> begunAt (made (pRetry alwaysFailing 3 1000 0) ! Suc 2)
       = endedAt (made (pRetry alwaysFailing 3 1000 0) ! 2) + 4000
   \<and> map loggedDelay (take 3 (failedAttempts (pRetry alwaysFailing 3 1000 0)))
       = [Some 1000, Some 2000, Some 4000]"
proof -
  have h: "(1::nat) \<le> 1000" by simp
  have b: "map begunAt (made (pRetry alwaysFailing 3 1000 0)) = [0, 1100, 3200, 7300]"
    by (simp add: eval_defs)
  have e: "map endedAt (made (pRetry alwaysFailing 3 1000 0)) = [100, 1200, 3300, 7400]"
    by (simp add: eval_defs)
  have l: "map loggedDelay (take 3 (failedAttempts (pRetry alwaysFailing 3 1000 0)))
       = [Some 1000, Some 2000, Some 4000]"
    by (simp add: eval_defs)
  have len: "length (made (pRetry alwaysFailing 3 1000 0)) = 4"
    by (simp add: eval_defs)
  have n0: "attemptNumber (made (pRetry alwaysFailing 3 1000 0) ! 0) = 1"
    and n1: "attemptNumber (made (pRetry alwaysFailing 3 1000 0) ! 1) = 2"
    and n2: "attemptNumber (made (pRetry alwaysFailing 3 1000 0) ! 2) = 3"
    by (simp_all add: eval_defs)
  note bd = pRetry_backoff_delay [of alwaysFailing 3 1000 0]
  have w: "begunAt (made (pRetry alwaysFailing 3 1000 0) ! Suc j)
       = endedAt (made (pRetry alwaysFailing 3 1000 0) ! j)
         + min (1000 * 2 ^ (attemptNumber (made (pRetry alwaysFailing 3 1000 0) ! j) - 1)) 60000"
    if "Suc j < 4" for j
    using bd h len that by simp
  have w0: "begunAt (made (pRetry alwaysFailing 3 1000 0) ! Suc 0)
       = endedAt (made (pRetry alwaysFailing 3 1000 0) ! 0) + 1000"
    using w [of 0] n0 by simp
  have w1: "begunAt (made (pRetry alwaysFailing 3 1000 0) ! Suc 1)
       = endedAt (made (pRetry alwaysFailing 3 1000 0) ! 1) + 2000"
    using w [of 1] n1 by simp
  have w2: "begunAt (made (pRetry alwaysFailing 3 1000 0) ! Suc 2)
       = endedAt (made (pRetry alwaysFailing 3 1000 0) ! 2) + 4000"
    using w [of 2] n2 by simp
  from h b e w0 w1 w2 l show ?thesis by blast
qed

text \<open>
  Claim C4 as stated fails at an initial delay of 0 ms: the formula gives a delay of 0 ms,
  the second attempt begins 1 ms after the first ended, and after a failed attempt 1025
  the delay the code computes is not a number.
\<close>

theorem pRetry_zero_delay_counterexample:
  "begunAt (made (pRetry alwaysFailing 3 0 0) ! 1)
     = endedAt (made (pRetry alwaysFailing 3 0 0) ! 0) + 1
   \<and> min ((0::nat) * 2 ^ (1 - 1)) 60000 = 0
   \<and> loggedDelay (onFailedAttempt 1024 0 1025) = None"
  by (simp add: eval_defs)

text \<open>
  Claim C3, as the code has it. The attempts are numbered from 1 without gaps and each is
  one call of the operation; every attempt before the last one failed, so a success ends
  the run at once, and the run resolves exactly to the success of its last attempt; an
  attempt \<open>n\<close> is followed by attempt \<open>n + 1\<close> only if it failed and \<open>n \<le> retries\<close>, and it
  is then followed by it whenever p-retry retries what it was rejected with; when the last
  attempt failed, and so when attempt \<open>retries + 1\<close> failed, the run is rejected; so there
  are never more than \<open>retries + 1\<close> attempts.
\<close>

theorem pRetry_state_machine:
  "length (made (pRetry input retriesOpt retryDelayOpt t)) \<le> retriesOpt + 1
   \<and> map attemptNumber (made (pRetry input retriesOpt retryDelayOpt t))
         = [1 ..< 1 + length (made (pRetry input retriesOpt retryDelayOpt t))]
   \<and> (\<forall>a \<in> set (made (pRetry input retriesOpt retryDelayOpt t)).
         did a = fst (input (attemptNumber a)))
   \<and> (\<forall>a \<in> set (butlast (made (pRetry input retriesOpt retryDelayOpt t))).
         isl (returned (did a)))
   \<and> (\<forall>saved. settled (pRetry input retriesOpt retryDelayOpt t) = Inr saved
         \<longleftrightarrow> made (pRetry input retriesOpt retryDelayOpt t) \<noteq> []
             \<and> returned (did (last (made (pRetry input retriesOpt retryDelayOpt t)))) = Inr saved)
   \<and> (\<forall>a \<in> set (made (pRetry input retriesOpt retryDelayOpt t)).
         Suc (attemptNumber a)
           \<in> set (map attemptNumber (made (pRetry input retriesOpt retryDelayOpt t)))
         \<longrightarrow> isl (returned (did a)) \<and> attemptNumber a \<le> retriesOpt)
   \<and> (\<forall>a \<in> set (made (pRetry input retriesOpt retryDelayOpt t)).
         failedRetryably a \<longrightarrow>
           (attemptNumber a \<le> retriesOpt
            \<longleftrightarrow> Suc (attemptNumber a)
                  \<in> set (map attemptNumber (made (pRetry input retriesOpt retryDelayOpt t)))))
   \<and> (made (pRetry input retriesOpt retryDelayOpt t) \<noteq> []
        \<and> isl (returned (did (last (made (pRetry input retriesOpt retryDelayOpt t)))))
       \<longrightarrow> isl (settled (pRetry input retriesOpt retryDelayOpt t)))
   \<and> (\<forall>a \<in> set (made (pRetry input retriesOpt retryDelayOpt t)).
         isl (returned (did a)) \<and> attemptNumber a = retriesOpt + 1
         \<longrightarrow> isl (settled (pRetry input retriesOpt retryDelayOpt t)))"
proof (cases "retryDelayOpt \<le> 60000")
  case False
  then have "made (pRetry input retriesOpt retryDelayOpt t) = []"
    and "settled (pRetry input retriesOpt retryDelayOpt t)
           = Inl (Error ''minTimeout is greater than maxTimeout'')"
    by (simp_all add: made_pRetry_refused settled_pRetry_refused)
  then show ?thesis by simp
next
  case True
  let ?ts = "timeouts retriesOpt retryDelayOpt"
  let ?as = "attempts input ?ts 1 t"
  have m: "made (pRetry input retriesOpt retryDelayOpt t) = ?as"
    using True by (rule made_pRetry)
  have s: "settled (pRetry input retriesOpt retryDelayOpt t) =
     (case returned (did (last ?as)) of
        Inr saved \<Rightarrow> Inr saved
      | Inl e \<Rightarrow> if retryable e then Inl (mainError e (rejections ?as)) else Inl (rethrown e))"
    using True by (rule settled_pRetry)
  have ne: "?as \<noteq> []" by (rule attempts_not_Nil)
  have 1: "length ?as \<le> retriesOpt + 1"
    using length_attempts [of input ?ts 1 t] by (simp add: length_timeouts)
  have 2: "map attemptNumber ?as = [1 ..< 1 + length ?as]"
    by (rule attemptNumber_attempts)
  have 3: "\<forall>a \<in> set ?as. did a = fst (input (attemptNumber a))"
    using did_attempts by blast
  have 4: "\<forall>a \<in> set (butlast ?as). isl (returned (did a))"
    using butlast_attempts_failed failedRetryably_isl by blast
  have 5: "\<forall>saved. settled (pRetry input retriesOpt retryDelayOpt t) = Inr saved
             \<longleftrightarrow> ?as \<noteq> [] \<and> returned (did (last ?as)) = Inr saved"
    unfolding s using ne by (cases "returned (did (last ?as))") simp_all
  have 6: "\<forall>a \<in> set ?as. Suc (attemptNumber a) \<in> set (map attemptNumber ?as)
             \<longrightarrow> isl (returned (did a)) \<and> attemptNumber a \<le> retriesOpt"
  proof (intro ballI impI)
    fix a assume a: "a \<in> set ?as" and n: "Suc (attemptNumber a) \<in> set (map attemptNumber ?as)"
    from a n have "a \<in> set (butlast ?as)" by (rule attempts_followed)
    then have f: "isl (returned (did a))" using 4 by blast
    from n have "Suc (attemptNumber a) \<le> 1 + length ?ts"
      using attempts_number_bound by blast
    then have "attemptNumber a \<le> retriesOpt" by (simp add: length_timeouts)
    with f show "isl (returned (did a)) \<and> attemptNumber a \<le> retriesOpt" by simp
  qed
  have 7: "\<forall>a \<in> set ?as. failedRetryably a \<longrightarrow>
             (attemptNumber a \<le> retriesOpt
              \<longleftrightarrow> Suc (attemptNumber a) \<in> set (map attemptNumber ?as))"
  proof (intro ballI impI iffI)
    fix a assume a: "a \<in> set ?as" and f: "failedRetryably a"
      and le: "attemptNumber a \<le> retriesOpt"
    from le have "attemptNumber a < 1 + length ?ts" by (simp add: length_timeouts)
    with a f show "Suc (attemptNumber a) \<in> set (map attemptNumber ?as)"
      by (rule attempts_retried)
  next
    fix a assume "a \<in> set ?as" and "Suc (attemptNumber a) \<in> set (map attemptNumber ?as)"
    with 6 show "attemptNumber a \<le> retriesOpt" by blast
  qed
  have 8: "?as \<noteq> [] \<and> isl (returned (did (last ?as)))
       \<longrightarrow> isl (settled (pRetry input retriesOpt retryDelayOpt t))"
    unfolding s by (cases "returned (did (last ?as))") simp_all
  have 9: "\<forall>a \<in> set ?as. isl (returned (did a)) \<and> attemptNumber a = retriesOpt + 1
       \<longrightarrow> isl (settled (pRetry input retriesOpt retryDelayOpt t))"
  proof (intro ballI impI)
    fix a assume a: "a \<in> set ?as"
      and f: "isl (returned (did a)) \<and> attemptNumber a = retriesOpt + 1"
    have "a \<notin> set (butlast ?as)"
    proof
      assume b: "a \<in> set (butlast ?as)"
      then obtain j where j: "j < length (butlast ?as)" and aj: "a = butlast ?as ! j"
        by (auto simp: in_set_conv_nth)
      from j have jl: "Suc j < length ?as" by simp
      then have "j < length ?as" by simp
      then have "attemptNumber (?as ! j) = 1 + j" by (rule attemptNumber_nth)
      moreover have "butlast ?as ! j = ?as ! j" using j by (simp add: nth_butlast)
      ultimately have "attemptNumber a = 1 + j" using aj by simp
      with f jl 1 show False by simp
    qed
    with a ne have "a = last ?as"
      by (metis append_butlast_last_id Un_iff set_append empty_iff empty_set set_ConsD)
    with f 8 ne show "isl (settled (pRetry input retriesOpt retryDelayOpt t))" by simp
  qed
  show ?thesis unfolding m using 1 2 3 4 5 6 7 8 9 by blast
qed

theorem pRetry_state_machine_witness:
  "map attemptNumber (made (pRetry alwaysFailing 3 1000 0)) = [1, 2, 3, 4]
   \<and> length (made (pRetry alwaysFailing 3 1000 0)) \<le> 3 + 1
   \<and> isl (settled (pRetry alwaysFailing 3 1000 0))"
proof -
  have nums: "map attemptNumber (made (pRetry alwaysFailing 3 1000 0)) = [1, 2, 3, 4]"
    by (simp add: eval_defs)
  then have ne: "made (pRetry alwaysFailing 3 1000 0) \<noteq> []" by auto
  have l: "isl (returned (did (last (made (pRetry alwaysFailing 3 1000 0)))))"
    by (simp add: eval_defs)
  note sm = pRetry_state_machine [of alwaysFailing 3 1000 0]
  from sm have a: "length (made (pRetry alwaysFailing 3 1000 0)) \<le> 3 + 1" by blast
  from sm ne l have b: "isl (settled (pRetry alwaysFailing 3 1000 0))" by blast
  from nums a b show ?thesis by blast
qed

text \<open>
  Claim C3 as stated fails: with \<open>retries = 3\<close> and an operation that always fails, the
  failed attempt 3 is followed by attempt 4.
\<close>

theorem pRetry_fourth_attempt_counterexample:
  "map attemptNumber (made (pRetry alwaysFailing 3 1000 0)) = [1, 2, 3, 4]"
  by (simp add: eval_defs)

lemma processUrl_no_content:
  assumes "parsed env = Inr result"
    and "result = None \<or> (\<exists>r. result = Some r \<and> (content r = None \<or> content r = Some []))"
  shows "processUrl md5 yamlDump outputPath siteUrl env
           = \<lparr> returned = Inl (Error ''No content found''), written = [] \<rparr>"
  using assms by (auto simp: processUrl_def)

text \<open>
  Claim C7. When the extraction result is null, or its body is absent or empty, the attempt
  fails with \<^verbatim>\<open>No content found\<close> and calls \<^verbatim>\<open>writeFile\<close> not at all; and the failure is an
  ordinary failed attempt: if it was attempt \<open>n\<close> with \<open>n \<le> retries\<close>, attempt \<open>n + 1\<close> is
  made.
\<close>

theorem empty_content_fails_unwritten_and_is_retried:
  assumes "parsed (answer n) = Inr result"
    and "result = None \<or> (\<exists>r. result = Some r \<and> (content r = None \<or> content r = Some []))"
    and "n \<le> retriesOpt"
    and "n \<in> set (map attemptNumber (made (pRetry
           (\<lambda>k. (processUrl md5 yamlDump outputPath siteUrl (answer k), took (answer k)))
           retriesOpt retryDelayOpt t)))"
  shows "processUrl md5 yamlDump outputPath siteUrl (answer n)
           = \<lparr> returned = Inl (Error ''No content found''), written = [] \<rparr>
       \<and> Suc n \<in> set (map attemptNumber (made (pRetry
           (\<lambda>k. (processUrl md5 yamlDump outputPath siteUrl (answer k), took (answer k)))
           retriesOpt retryDelayOpt t)))"
proof -
  let ?input = "\<lambda>k. (processUrl md5 yamlDump outputPath siteUrl (answer k), took (answer k))"
  let ?as = "attempts ?input (timeouts retriesOpt retryDelayOpt) 1 t"
  have fails: "processUrl md5 yamlDump outputPath siteUrl (answer n)
           = \<lparr> returned = Inl (Error ''No content found''), written = [] \<rparr>"
    using assms(1,2) by (rule processUrl_no_content)
  have "retryDelayOpt \<le> 60000"
  proof (rule ccontr)
    assume "\<not> retryDelayOpt \<le> 60000"
    then have "made (pRetry ?input retriesOpt retryDelayOpt t) = []"
      by (simp add: made_pRetry_refused)
    with assms(4) show False by simp
  qed
  then have m: "made (pRetry ?input retriesOpt retryDelayOpt t) = ?as"
    by (rule made_pRetry)
  have nums: "map attemptNumber ?as = [1 ..< 1 + length ?as]"
    by (rule attemptNumber_attempts)
  from assms(4) have "n \<in> set [1 ..< 1 + length ?as]"
    unfolding m nums .
  then have n1: "1 \<le> n" and nlen: "n \<le> length ?as" by auto
  define j where "j = n - 1"
  have j: "j < length ?as" and nj: "n = Suc j" using n1 nlen by (simp_all add: j_def)
  have "attemptNumber (?as ! j) = n"
    using attemptNumber_nth [OF j] nj by simp
  moreover have "?as ! j \<in> set ?as" using j by simp
  ultimately have "did (?as ! j) = fst (?input n)"
    using did_attempts [of "?as ! j" ?input] by simp
  then have failed: "failedRetryably (?as ! j)"
    using fails by (simp add: failedRetryably_def)
  have "j < length (timeouts retriesOpt retryDelayOpt)"
    using assms(3) nj by (simp add: length_timeouts)
  with j failed have "Suc j < length ?as" by (rule attempts_next)
  then have "Suc n \<in> set [1 ..< 1 + length ?as]" using nj by auto
  then have "Suc n \<in> set (map attemptNumber (made (pRetry ?input retriesOpt retryDelayOpt t)))"
    unfolding m nums .
  with fails show ?thesis by simp
qed

theorem empty_content_fails_unwritten_and_is_retried_witness:
  "parsed (emptyThenPage 1) = Inr None
   \<and> (1::nat) \<le> 3
   \<and> processUrl (hash abcWorld) (dump abcWorld) ''/out'' ''A'' (emptyThenPage 1)
       = \<lparr> returned = Inl (Error ''No content found''), written = [] \<rparr>
   \<and> map attemptNumber (made (pRetry
         (\<lambda>k. (processUrl (hash abcWorld) (dump abcWorld) ''/out'' ''A'' (emptyThenPage k),
               took (emptyThenPage k))) 3 1000 0)) = [1, 2]
   \<and> Suc 1 \<in> set (map attemptNumber (made (pRetry
         (\<lambda>k. (processUrl (hash abcWorld) (dump abcWorld) ''/out'' ''A'' (emptyThenPage k),
               took (emptyThenPage k))) 3 1000 0)))
   \<and> settled (pRetry
         (\<lambda>k. (processUrl (hash abcWorld) (dump abcWorld) ''/out'' ''A'' (emptyThenPage k),
               took (emptyThenPage k))) 3 1000 0)
       = Inr \<lparr> saved_url = ''A'', saved_path = ''/out/41.md'' \<rparr>"
proof -
  let ?input = "\<lambda>k. (processUrl (hash abcWorld) (dump abcWorld) ''/out'' ''A'' (emptyThenPage k),
               took (emptyThenPage k))"
  have h1: "parsed (emptyThenPage 1) = Inr None" by (simp add: emptyThenPage_def)
  have h2: "None = None \<or> (\<exists>r. None = Some r \<and> (content r = None \<or> content r = Some []))"
    by simp
  have h3: "(1::nat) \<le> 3" by simp
  have nums: "map attemptNumber (made (pRetry ?input 3 1000 0)) = [1, 2]"
    by (simp add: eval_defs)
  have h5: "1 \<in> set (map attemptNumber (made (pRetry ?input 3 1000 0)))"
    unfolding nums by simp
  have res: "settled (pRetry ?input 3 1000 0)
       = Inr \<lparr> saved_url = ''A'', saved_path = ''/out/41.md'' \<rparr>"
    by (simp add: eval_defs)
  from empty_content_fails_unwritten_and_is_retried [of emptyThenPage 1 None 3
         "hash abcWorld" "dump abcWorld" "''/out''" "''A''" 1000 0, OF h1 h2 h3 h5]
  show ?thesis using h1 nums res by simp
qed

section \<open>Throttled Scheduler: properties\<close>

lemma pThrottle_window:
  assumes "0 < limit" and "1 \<le> r" and "r \<le> limit"
  shows "pThrottle limit (replicate n 0) (Some (q * 1000, r))
           = map (\<lambda>i. ((q * limit + r + i) div limit) * 1000) [0..<n]"
  using assms
proof (induction n arbitrary: q r)
  case 0
  show ?case by simp
next
  case (Suc n)
  show ?case
  proof (cases "r < limit")
    case True
    then have d: "(q * limit + r) div limit = q" by simp
    have "pThrottle limit (replicate (Suc n) 0) (Some (q * 1000, r))
            = q * 1000 # pThrottle limit (replicate n 0) (Some (q * 1000, r + 1))"
      using True by simp
    also have "pThrottle limit (replicate n 0) (Some (q * 1000, r + 1))
            = map (\<lambda>i. ((q * limit + (r + 1) + i) div limit) * 1000) [0..<n]"
      using Suc.IH [of "r + 1" q] Suc.prems True by simp
    also have "q * 1000 # map (\<lambda>i. ((q * limit + (r + 1) + i) div limit) * 1000) [0..<n]
            = map (\<lambda>i. ((q * limit + r + i) div limit) * 1000) [0..<Suc n]"
      using d by (simp add: upt_conv_Cons map_Suc_upt [symmetric] del: upt_Suc)
    finally show ?thesis .
  next
    case False
    with Suc.prems have r: "r = limit" by simp
    have d: "(q * limit + r) div limit = q + 1" using r Suc.prems(1) by simp
    have "pThrottle limit (replicate (Suc n) 0) (Some (q * 1000, r))
            = (q + 1) * 1000 # pThrottle limit (replicate n 0) (Some ((q + 1) * 1000, 1))"
      using r by (simp add: algebra_simps)
    also have "pThrottle limit (replicate n 0) (Some ((q + 1) * 1000, 1))
            = map (\<lambda>i. (((q + 1) * limit + 1 + i) div limit) * 1000) [0..<n]"
      using Suc.IH [of 1 "q + 1"] Suc.prems by simp
    also have "(q + 1) * 1000 # map (\<lambda>i. (((q + 1) * limit + 1 + i) div limit) * 1000) [0..<n]
            = map (\<lambda>i. ((q * limit + r + i) div limit) * 1000) [0..<Suc n]"
      using d r by (simp add: upt_conv_Cons map_Suc_upt [symmetric] algebra_simps del: upt_Suc)
    finally show ?thesis .
  qed
qed

lemma pThrottle_at_once:
  assumes "0 < limit"
  shows "pThrottle limit (replicate n 0) None = map (\<lambda>i. (i div limit) * 1000) [0..<n]"
proof (cases n)
  case 0
  then show ?thesis by simp
next
  case (Suc k)
  have "pThrottle limit (replicate (Suc k) 0) None
          = 0 # pThrottle limit (replicate k 0) (Some (0 * 1000, 1))"
    by simp
  also have "pThrottle limit (replicate k 0) (Some (0 * 1000, 1))
          = map (\<lambda>i. ((0 * limit + 1 + i) div limit) * 1000) [0..<k]"
    using assms by (intro pThrottle_window) simp_all
  also have "0 # map (\<lambda>i. ((0 * limit + 1 + i) div limit) * 1000) [0..<k]
          = map (\<lambda>i. (i div limit) * 1000) [0..<Suc k]"
    by (simp add: upt_conv_Cons map_Suc_upt [symmetric] del: upt_Suc)
  finally show ?thesis using Suc by simp
qed



lemma length_startTimes: "length (startTimes options n) = n"
proof (cases "0 < rateLimit options")
  case True
  then show ?thesis by (simp add: startTimes_def pThrottle_at_once)
next
  case False
  then show ?thesis by (simp add: startTimes_def)
qed

lemma calledAt_pRetry: "calledAt (pRetry input r d t) = t"
  by (simp add: pRetry_def Let_def)

lemma map_fst_runs: "map fst (runs options world sites) = sites"
proof -
  have "map fst (runs options world sites)
          = map (snd \<circ> fst) (zip (enumerate 0 sites) (startTimes options (length sites)))"
    by (simp add: runs_def split_def comp_def)
  also have "\<dots> = map snd (map fst (zip (enumerate 0 sites) (startTimes options (length sites))))"
    by simp
  also have "\<dots> = map snd (enumerate 0 sites)"
    by (simp add: length_startTimes)
  finally show ?thesis by simp
qed

lemma calledAt_runs_startTimes:
  "map (\<lambda>(siteUrl, run). calledAt run) (runs options world sites)
     = startTimes options (length sites)"
proof -
  have "map (\<lambda>(siteUrl, run). calledAt run) (runs options world sites)
          = map snd (zip (enumerate 0 sites) (startTimes options (length sites)))"
    by (simp add: runs_def split_def comp_def throttledFn_def calledAt_pRetry)
  also have "\<dots> = startTimes options (length sites)"
    by (simp add: length_startTimes)
  finally show ?thesis .
qed

lemma calledAt_runs:
  assumes "rateLimit options = 0" and "(siteUrl, run) \<in> set (runs options world sites)"
  shows "calledAt run = 0"
proof -
  from assms(2) have "calledAt run \<in> set (map (\<lambda>(siteUrl, run). calledAt run)
      (runs options world sites))" by force
  then have "calledAt run \<in> set (replicate (length sites) 0)"
    using assms(1) by (simp add: calledAt_runs_startTimes startTimes_def)
  then show ?thesis by simp
qed



section \<open>Batch Coordinator: properties\<close>

lemma earliest_None: "earliest ts = None \<longleftrightarrow> ts = []"
  by (cases ts) (simp_all split: option.splits)

lemma earliest_Some: "earliest ts = Some m \<Longrightarrow> m \<in> set ts \<and> (\<forall>t \<in> set ts. m \<le> t)"
proof (induction ts arbitrary: m)
  case Nil
  then show ?case by simp
next
  case (Cons t ts)
  show ?case
  proof (cases "earliest ts")
    case None
    then have "ts = []" by (simp add: earliest_None)
    with Cons.prems None show ?thesis by simp
  next
    case (Some k)
    with Cons.IH [of k] have k: "k \<in> set ts" "\<forall>t \<in> set ts. k \<le> t" by simp_all
    from Cons.prems Some have m: "m = min t k" by simp
    show ?thesis
    proof (cases "t \<le> k")
      case True
      with m k show ?thesis by auto
    next
      case False
      with m k show ?thesis by auto
    qed
  qed
qed

lemma callback_None: "callback options siteUrl run = None \<longleftrightarrow> \<not> continue options \<and> isl (settled run)"
  by (cases "settled run") (simp_all add: callback_def)

lemma callback_stop_Some:
  "\<not> continue options \<Longrightarrow> callback options siteUrl run = Some p \<Longrightarrow> \<exists>saved. p = Fulfilled (Success saved)"
  by (cases "settled run") (auto simp: callback_def)

lemma callback_continue:
  "continue options \<Longrightarrow> \<exists>v. callback options siteUrl run = Some (Fulfilled v)"
  by (cases "settled run") (simp_all add: callback_def)

lemma crawlSites_exit:
  assumes "earliest (map (\<lambda>(siteUrl, run). settledAt run)
             (filter (\<lambda>(siteUrl, run). callback options siteUrl run = None)
                (runs options world sites))) = Some T"
  shows "crawlSites options world sites =
           \<lparr> exitCode = 1,
             started = map fst (filter (\<lambda>(siteUrl, run). calledAt run \<le> T) (runs options world sites)),
             outcomes =
               concat (map fulfilledWith (List.map_filter
                 (\<lambda>(siteUrl, run). if settledAt run \<le> T then callback options siteUrl run else None)
                 (runs options world sites))),
             reported = take 1 (concat (map errorReport
                 (filter (\<lambda>(siteUrl, run). settledAt run = T)
                    (filter (\<lambda>(siteUrl, run). callback options siteUrl run = None)
                       (runs options world sites))))),
             stopping = True,
             completed = None \<rparr>"
  using assms by (simp add: crawlSites_def Let_def)

lemma crawlSites_complete:
  assumes "filter (\<lambda>(siteUrl, run). callback options siteUrl run = None)
                (runs options world sites) = []"
  shows "crawlSites options world sites =
           \<lparr> exitCode = 0,
             started = sites,
             outcomes = concat (map fulfilledWith
                (List.map_filter (\<lambda>(siteUrl, run). callback options siteUrl run) (runs options world sites))),
             reported = concat (map errorReport (runs options world sites)),
             stopping = False,
             completed = Some (length sites,
               length (filter isFulfilled
                 (List.map_filter (\<lambda>(siteUrl, run). callback options siteUrl run) (runs options world sites))),
               length (filter isRejected
                 (List.map_filter (\<lambda>(siteUrl, run). callback options siteUrl run) (runs options world sites)))) \<rparr>"
  using assms by (simp add: crawlSites_def Let_def)


lemma outcomes_stop_are_successes:
  assumes "\<not> continue options"
  shows "\<forall>outcome \<in> set (concat (map fulfilledWith (List.map_filter
            (\<lambda>(siteUrl, run). if settledAt run \<le> T then callback options siteUrl run else None) rs))).
           \<exists>saved. outcome = Success saved"
proof
  fix outcome
  assume "outcome \<in> set (concat (map fulfilledWith (List.map_filter
            (\<lambda>(siteUrl, run). if settledAt run \<le> T then callback options siteUrl run else None) rs)))"
  then obtain p where p: "p \<in> set (List.map_filter
            (\<lambda>(siteUrl, run). if settledAt run \<le> T then callback options siteUrl run else None) rs)"
    and o: "outcome \<in> set (fulfilledWith p)" by auto
  from p obtain siteUrl run where "callback options siteUrl run = Some p"
    by (auto simp: List.map_filter_def split: if_splits)
  with assms obtain saved where "p = Fulfilled (Success saved)"
    using callback_stop_Some by blast
  with o show "\<exists>saved. outcome = Success saved" by simp
qed

lemma outcomes_stop:
  assumes "\<not> continue options"
  shows "concat (map fulfilledWith (List.map_filter
            (\<lambda>(siteUrl, run). if settledAt run \<le> T then callback options siteUrl run else None) rs))
       = concat (map (\<lambda>(siteUrl, run).
            case settled run of
              Inr saved \<Rightarrow> if settledAt run \<le> T then [Success saved] else []
            | Inl _ \<Rightarrow> []) rs)"
proof (induction rs)
  case Nil
  show ?case by (simp add: List.map_filter_simps)
next
  case (Cons x rs)
  obtain siteUrl run where x: "x = (siteUrl, run)" by (cases x)
  show ?case
  proof (cases "settled run")
    case (Inl e)
    with assms Cons x show ?thesis by (simp add: List.map_filter_simps callback_def)
  next
    case (Inr saved)
    with Cons x show ?thesis by (simp add: List.map_filter_simps callback_def)
  qed
qed

text \<open>
  Claim C2, as the code has it. In a run without \<^verbatim>\<open>--continue\<close> in which some site's
  retried operation is rejected, the rejection that settles first (at time \<open>T\<close>) is reported,
  \<^verbatim>\<open>Stopping due to error.\<close> is printed, no summary line is printed and the process exits
  with status 1. The sites started are those whose operation was called by time \<open>T\<close>,
  which with a rate limit of 0 is every site; the sites processed are those whose
  operation had succeeded by time \<open>T\<close>, each with its success as outcome.
\<close>

theorem crawlSites_halts_at_first_failure:
  assumes "\<not> continue options"
    and "(failedUrl, failedRun) \<in> set (runs options world sites)"
    and "isl (settled failedRun)"
  shows "exitCode (crawlSites options world sites) = 1
       \<and> stopping (crawlSites options world sites)
       \<and> completed (crawlSites options world sites) = None
       \<and> (\<exists>T siteUrl run error.
             (siteUrl, run) \<in> set (runs options world sites)
           \<and> settled run = Inl error \<and> settledAt run = T
           \<and> (\<forall>(siteUrl', run') \<in> set (runs options world sites).
                 isl (settled run') \<longrightarrow> T \<le> settledAt run')
           \<and> reported (crawlSites options world sites) = [(siteUrl, reportedMessage error)]
           \<and> started (crawlSites options world sites)
               = map fst (filter (\<lambda>(siteUrl', run'). calledAt run' \<le> T) (runs options world sites))
           \<and> outcomes (crawlSites options world sites)
               = concat (map (\<lambda>(siteUrl', run').
                    case settled run' of
                      Inr saved \<Rightarrow> if settledAt run' \<le> T then [Success saved] else []
                    | Inl _ \<Rightarrow> []) (runs options world sites)))
       \<and> (\<forall>outcome \<in> set (outcomes (crawlSites options world sites)). \<exists>saved. outcome = Success saved)
       \<and> (rateLimit options = 0 \<longrightarrow> started (crawlSites options world sites) = sites)"
proof -
  let ?rs = "runs options world sites"
  let ?exits = "filter (\<lambda>(siteUrl, run). callback options siteUrl run = None) ?rs"
  let ?times = "map (\<lambda>(siteUrl, run). settledAt run) ?exits"
  have exits_iff: "\<And>u r. (u, r) \<in> set ?exits \<longleftrightarrow> (u, r) \<in> set ?rs \<and> isl (settled r)"
    using assms(1) by (auto simp: callback_None)
  have "(failedUrl, failedRun) \<in> set ?exits"
    using assms(2,3) exits_iff by blast
  then have "?exits \<noteq> []" by (metis empty_iff empty_set)
  then have "?times \<noteq> []" by simp
  then obtain T where T: "earliest ?times = Some T"
    using earliest_None [of ?times] by (cases "earliest ?times") auto
  note c = crawlSites_exit [OF T]
  from earliest_Some [OF T] have Tin: "T \<in> set ?times" and Tmin: "\<forall>t \<in> set ?times. T \<le> t"
    by simp_all
  define xs where "xs = filter (\<lambda>(siteUrl, run). settledAt run = T) ?exits"
  from Tin have "xs \<noteq> []" by (auto simp: xs_def filter_empty_conv)
  then obtain x xs' where xs: "xs = x # xs'" by (cases xs) auto
  obtain siteUrl run where x: "x = (siteUrl, run)" by (cases x)
  have "x \<in> set xs" using xs by simp
  then have xin: "(siteUrl, run) \<in> set ?exits" and xT: "settledAt run = T"
    using x by (auto simp: xs_def)
  from xin have rin: "(siteUrl, run) \<in> set ?rs" and rfail: "isl (settled run)"
    using exits_iff by blast+
  from rfail obtain error where err: "settled run = Inl error"
    by (cases "settled run") auto
  have "reported (crawlSites options world sites) = take 1 (concat (map errorReport xs))"
    unfolding c xs_def by (simp del: filter_filter)
  also have "\<dots> = [(siteUrl, reportedMessage error)]"
    unfolding xs x using err by simp
  finally have rep: "reported (crawlSites options world sites) = [(siteUrl, reportedMessage error)]" .
  have min: "\<forall>(siteUrl', run') \<in> set ?rs. isl (settled run') \<longrightarrow> T \<le> settledAt run'"
  proof (clarify)
    fix u r assume "(u, r) \<in> set ?rs" "isl (settled r)"
    then have "(u, r) \<in> set ?exits" using exits_iff by blast
    then have "settledAt r \<in> set ?times" by force
    with Tmin show "T \<le> settledAt r" by blast
  qed
  have st: "started (crawlSites options world sites)
               = map fst (filter (\<lambda>(siteUrl', run'). calledAt run' \<le> T) ?rs)"
    unfolding c by simp
  have out: "\<forall>outcome \<in> set (outcomes (crawlSites options world sites)). \<exists>saved. outcome = Success saved"
    unfolding c using outcomes_stop_are_successes [OF assms(1)] by simp
  have outs: "outcomes (crawlSites options world sites)
               = concat (map (\<lambda>(siteUrl', run').
                    case settled run' of
                      Inr saved \<Rightarrow> if settledAt run' \<le> T then [Success saved] else []
                    | Inl _ \<Rightarrow> []) ?rs)"
    unfolding c using outcomes_stop [OF assms(1), of T ?rs] by simp
  have unthrottled: "rateLimit options = 0 \<longrightarrow> started (crawlSites options world sites) = sites"
  proof
    assume z: "rateLimit options = 0"
    have "filter (\<lambda>(siteUrl', run'). calledAt run' \<le> T) ?rs = ?rs"
      using calledAt_runs [OF z] by (auto simp: filter_id_conv)
    then show "started (crawlSites options world sites) = sites"
      unfolding st by (simp add: map_fst_runs)
  qed
  have "exitCode (crawlSites options world sites) = 1"
    and "stopping (crawlSites options world sites)"
    and "completed (crawlSites options world sites) = None"
    unfolding c by simp_all
  with rin err xT min rep st outs out unthrottled show ?thesis by blast
qed

theorem crawlSites_halts_at_first_failure_witness:
  "\<not> continue \<lparr> continue = False, retries = 3, retryDelay = 1000, rateLimit = 0 \<rparr>
   \<and> (''B'', throttledFn \<lparr> continue = False, retries = 3, retryDelay = 1000, rateLimit = 0 \<rparr>
               abcWorld 1 ''B'' 0)
       \<in> set (runs \<lparr> continue = False, retries = 3, retryDelay = 1000, rateLimit = 0 \<rparr>
               abcWorld [''A'', ''B'', ''C''])
   \<and> isl (settled (throttledFn \<lparr> continue = False, retries = 3, retryDelay = 1000, rateLimit = 0 \<rparr>
               abcWorld 1 ''B'' 0))
   \<and> exitCode (crawlSites \<lparr> continue = False, retries = 3, retryDelay = 1000, rateLimit = 0 \<rparr>
               abcWorld [''A'', ''B'', ''C'']) = 1
   \<and> started (crawlSites \<lparr> continue = False, retries = 3, retryDelay = 1000, rateLimit = 0 \<rparr>
               abcWorld [''A'', ''B'', ''C'']) = [''A'', ''B'', ''C'']"
proof -
  let ?options = "\<lparr> continue = False, retries = 3, retryDelay = 1000, rateLimit = 0 \<rparr>"
  have h1: "\<not> continue ?options" by simp
  have h2: "(''B'', throttledFn ?options abcWorld 1 ''B'' 0)
              \<in> set (runs ?options abcWorld [''A'', ''B'', ''C''])"
    by (simp add: runs_def startTimes_def enumerate_eq_zip upt_rec)
  have h3: "isl (settled (throttledFn ?options abcWorld 1 ''B'' 0))"
    by (simp add: eval_defs)
  from crawlSites_halts_at_first_failure [OF h1 h2 h3] h1 h2 h3 show ?thesis by simp
qed

text \<open>
  Claim C2 as stated fails: for the sites A, B, C where B always fails and \<^verbatim>\<open>--continue\<close> is
  absent, C is started and saved before the run halts, under the default options (B is
  rejected 8400 ms in, C was started at 2000 ms) and under a rate limit of 0 (all three
  start at once).
\<close>

theorem crawlSites_third_site_processed_counterexample:
  "crawlSites \<lparr> continue = False, retries = 3, retryDelay = 1000, rateLimit = 1 \<rparr> abcWorld
       [''A'', ''B'', ''C'']
     = \<lparr> exitCode = 1, started = [''A'', ''B'', ''C''],
         outcomes = [Success \<lparr> saved_url = ''A'', saved_path = ''/out/41.md'' \<rparr>,
                     Success \<lparr> saved_url = ''C'', saved_path = ''/out/43.md'' \<rparr>],
         reported = [(''B'', ''HTTP 500'')], stopping = True,
         completed = None \<rparr>
   \<and> crawlSites \<lparr> continue = False, retries = 3, retryDelay = 1000, rateLimit = 0 \<rparr> abcWorld
       [''A'', ''B'', ''C'']
     = \<lparr> exitCode = 1, started = [''A'', ''B'', ''C''],
         outcomes = [Success \<lparr> saved_url = ''A'', saved_path = ''/out/41.md'' \<rparr>,
                     Success \<lparr> saved_url = ''C'', saved_path = ''/out/43.md'' \<rparr>],
         reported = [(''B'', ''HTTP 500'')], stopping = True,
         completed = None \<rparr>"
  by (simp add: eval_defs)

lemma map_filter_callback_continue:
  assumes "continue options"
  shows "List.map_filter (\<lambda>(siteUrl, run). callback options siteUrl run) rs
       = map (\<lambda>(siteUrl, run). Fulfilled
            (case settled run of Inr saved \<Rightarrow> Success saved | Inl error \<Rightarrow> Failure siteUrl error)) rs"
proof (induction rs)
  case Nil
  show ?case by (simp add: List.map_filter_simps)
next
  case (Cons x rs)
  obtain siteUrl run where x: "x = (siteUrl, run)" by (cases x)
  have "callback options siteUrl run = Some (Fulfilled
            (case settled run of Inr saved \<Rightarrow> Success saved | Inl error \<Rightarrow> Failure siteUrl error))"
    using assms by (cases "settled run") (simp_all add: callback_def)
  with Cons x show ?case by (simp add: List.map_filter_simps)
qed

text \<open>
  With \<^verbatim>\<open>--continue\<close> every run exits with 0, every site has exactly one outcome, in the
  order of the sites, and the summary line counts every site as successful and none as
  failed.
\<close>

theorem crawlSites_continue_summary:
  assumes "continue options"
  shows "exitCode (crawlSites options world sites) = 0
       \<and> started (crawlSites options world sites) = sites
       \<and> outcomes (crawlSites options world sites)
           = map (\<lambda>(siteUrl, run).
                 case settled run of Inr saved \<Rightarrow> Success saved | Inl error \<Rightarrow> Failure siteUrl error)
               (runs options world sites)
       \<and> length (outcomes (crawlSites options world sites)) = length sites
       \<and> completed (crawlSites options world sites) = Some (length sites, length sites, 0)"
proof -
  let ?rs = "runs options world sites"
  let ?out = "\<lambda>(siteUrl, run).
                 case settled run of Inr saved \<Rightarrow> Success saved | Inl error \<Rightarrow> Failure siteUrl error"
  have len: "length ?rs = length sites"
    using map_fst_runs [of options world sites] by (metis length_map)
  have noexit: "filter (\<lambda>(siteUrl, run). callback options siteUrl run = None) ?rs = []"
    using assms by (auto simp: filter_empty_conv callback_None)
  note c = crawlSites_complete [OF noexit]
  have res: "List.map_filter (\<lambda>(siteUrl, run). callback options siteUrl run) ?rs
       = map (\<lambda>x. Fulfilled (?out x)) ?rs"
    using map_filter_callback_continue [OF assms, of ?rs] by (simp add: split_def)
  have out: "outcomes (crawlSites options world sites) = map ?out ?rs"
    unfolding c by (simp add: res comp_def)
  have ful: "filter isFulfilled (map (\<lambda>x. Fulfilled (?out x)) ?rs) = map (\<lambda>x. Fulfilled (?out x)) ?rs"
    by (simp add: filter_id_conv)
  have rej: "filter isRejected (map (\<lambda>x. Fulfilled (?out x)) ?rs) = []"
    by (simp add: filter_empty_conv)
  have comp: "completed (crawlSites options world sites) = Some (length sites, length sites, 0)"
    unfolding c by (simp add: res ful rej len)
  have "exitCode (crawlSites options world sites) = 0"
    and "started (crawlSites options world sites) = sites"
    unfolding c by simp_all
  with out comp len show ?thesis by simp
qed

text \<open>
  Claim C1, at the sites A, B, C where B always fails and \<^verbatim>\<open>--continue\<close> is given: each
  site has one outcome, two successes and one failure, the process exits with 0, and the
  summary line counts 3 successful and 0 failed.
\<close>

theorem crawlSites_continue_counts_failure_as_successful:
  "crawlSites \<lparr> continue = True, retries = 3, retryDelay = 1000, rateLimit = 1 \<rparr> abcWorld
       [''A'', ''B'', ''C'']
     = \<lparr> exitCode = 0, started = [''A'', ''B'', ''C''],
         outcomes = [Success \<lparr> saved_url = ''A'', saved_path = ''/out/41.md'' \<rparr>,
                     Failure ''B'' (Error ''HTTP 500''),
                     Success \<lparr> saved_url = ''C'', saved_path = ''/out/43.md'' \<rparr>],
         reported = [(''B'', ''HTTP 500'')], stopping = False,
         completed = Some (3, 3, 0) \<rparr>"
  by (simp add: eval_defs)

end
